theory Spec2Isabelle
  imports Main
begin

section \<open>The types of \<^verbatim>\<open>types.ts\<close>\<close>

text \<open>
  \<^verbatim>\<open>State = 'stopped' | 'running' | 'paused'\<close> and
  \<^verbatim>\<open>Command = 'start' | 'stop' | 'pause' | 'resume'\<close>. The command literals are
  capitalised, the lower-case names being those of the four operations.
\<close>

datatype State = stopped | running | paused

datatype Command = Start | Stop | Pause | Resume

text \<open>
  A callback supplied by the caller is known by its identity only: the controller never looks
  inside one, it only calls it. A \<^verbatim>\<open>Subscription\<close> is likewise the identity of the handle
  that \<^verbatim>\<open>source$.subscribe\<close> returned.
\<close>

type_synonym callback = nat

type_synonym Subscription = nat

text \<open>
  \<^verbatim>\<open>SubArgs<T> = Partial<Observer<T>> | ((value: T) => void)\<close>. Each of the three
  handlers of a partial observer may be missing. The optional parameter
  \<^verbatim>\<open>observer?: SubArgs<T>\<close> is a \<open>SubArgs option\<close>, \<open>None\<close> being \<^verbatim>\<open>undefined\<close>.
\<close>

record Observer =
  next_cb :: "callback option"
  error_cb :: "callback option"
  complete_cb :: "callback option"

datatype SubArgs = Function callback | Object Observer

section \<open>The two collaborators\<close>

text \<open>What the source pushes into the handlers of a subscription.\<close>

datatype ('a, 'e) notification = Next 'a | Error 'e | Complete

text \<open>
  Every call the controller makes on its collaborators: \<^verbatim>\<open>source$.subscribe(...)\<close> returning
  handle \<open>k\<close>, \<^verbatim>\<open>sourceSubscription.unsubscribe()\<close> on handle \<open>k\<close>, and the three ways of
  calling the observer (\<^verbatim>\<open>observer(value)\<close> and \<^verbatim>\<open>observer.next(value)\<close> are both
  \<open>Invoke_next\<close>, of the callback that was called).
\<close>

datatype ('a, 'e) call =
    Subscribe Subscription
  | Unsubscribe Subscription
  | Invoke_next callback 'a
  | Invoke_error callback 'e
  | Invoke_complete callback

text \<open>
  The closure of \<^verbatim>\<open>createPausable\<close> holds \<open>state\<close> and \<open>sourceSubscription\<close>. The other
  two fields are the world around it: \<open>issued\<close> counts the handles the source has handed out
  (each \<^verbatim>\<open>subscribe\<close> returns a new one), and \<open>calls\<close> is the log of the calls made so far,
  oldest first.
\<close>

record ('a, 'e) pausable =
  state :: State
  sourceSubscription :: "Subscription option"
  issued :: nat
  calls :: "('a, 'e) call list"

section \<open>The relay: the handlers passed to \<^verbatim>\<open>source$.subscribe\<close>\<close>

text \<open>
  The three handlers read \<^verbatim>\<open>state\<close> and \<^verbatim>\<open>observer\<close> when the notification arrives, so
  they take both as they are at that moment. Each returns the call it makes on the observer,
  if it makes one.
\<close>

definition relay_next :: "SubArgs option \<Rightarrow> State \<Rightarrow> 'a \<Rightarrow> ('a, 'e) call list" where
  "relay_next observer st v =
     (if st = running then
        (case observer of
           Some (Function f) \<Rightarrow> [Invoke_next f v]
         | Some (Object ob) \<Rightarrow>
             (case next_cb ob of Some h \<Rightarrow> [Invoke_next h v] | None \<Rightarrow> [])
         | None \<Rightarrow> [])
      else [])"

definition relay_error :: "SubArgs option \<Rightarrow> 'e \<Rightarrow> ('a, 'e) call list" where
  "relay_error observer err =
     (case observer of
        Some (Object ob) \<Rightarrow>
          (case error_cb ob of Some h \<Rightarrow> [Invoke_error h err] | None \<Rightarrow> [])
      | _ \<Rightarrow> [])"

definition relay_complete :: "SubArgs option \<Rightarrow> ('a, 'e) call list" where
  "relay_complete observer =
     (case observer of
        Some (Object ob) \<Rightarrow>
          (case complete_cb ob of Some h \<Rightarrow> [Invoke_complete h] | None \<Rightarrow> [])
      | _ \<Rightarrow> [])"

definition relay :: "SubArgs option \<Rightarrow> State \<Rightarrow> ('a, 'e) notification \<Rightarrow> ('a, 'e) call list" where
  "relay observer st n =
     (case n of
        Next v \<Rightarrow> relay_next observer st v
      | Error err \<Rightarrow> relay_error observer err
      | Complete \<Rightarrow> relay_complete observer)"

section \<open>Callbacks that call back\<close>

text \<open>
  The observer's callbacks are the caller's code, and they run on the stack of the handler that
  calls them. They may hold the controller and call \<^verbatim>\<open>start\<close>, \<^verbatim>\<open>stop\<close>, \<^verbatim>\<open>pause\<close> or
  \<^verbatim>\<open>resume\<close> before they return. The controller gives nothing back to read, so what a
  callback does to it is the list of operations it calls, in order; it may depend on everything
  that was called so far, the callback's own invocation (the last entry of the log) included.
\<close>

type_synonym ('a, 'e) reaction = "('a, 'e) call list \<Rightarrow> Command list"

text \<open>
  What is still to run, innermost first: a call of one of the four operations (by the caller or
  by a callback), a notification that the source hands to the relay, and the assignment
  \<^verbatim>\<open>sourceSubscription = ...\<close> that waits for \<^verbatim>\<open>source$.subscribe\<close> to return handle \<open>k\<close>.
\<close>

datatype ('a, 'e) frame =
    Invoke Command
  | Handler "('a, 'e) notification"
  | Assign Subscription

text \<open>
  The source hands one notification to the relay. When the handler calls no callback, nothing
  happens. When it calls one, the call is logged and the operations that the callback calls
  while it runs come next, before the handler returns to the source.
\<close>

definition deliver ::
  "('a, 'e) reaction \<Rightarrow> SubArgs option \<Rightarrow> ('a, 'e) notification \<Rightarrow> ('a, 'e) pausable \<Rightarrow>
     ('a, 'e) pausable \<times> ('a, 'e) frame list"
  where
  "deliver react observer n w =
     (case relay observer (state w) n of
        [] \<Rightarrow> (w, [])
      | c # cs \<Rightarrow>
          (w\<lparr>calls := calls w @ c # cs\<rparr>, map Invoke (react (calls w @ c # cs))))"

section \<open>\<^verbatim>\<open>createPausable\<close>\<close>

text \<open>
  The source \<^verbatim>\<open>source$\<close> is given by what it pushes synchronously, inside the call of
  \<^verbatim>\<open>subscribe\<close>, to its \<open>k\<close>-th subscriber: \<open>source k\<close>. \<^verbatim>\<open>subscribe\<close> calls
  \<^verbatim>\<open>source$.subscribe\<close>; the source then hands these notifications to the relay, one after
  the other, each with whatever its callback calls; only when all of that has returned is the
  handle assigned to \<^verbatim>\<open>sourceSubscription\<close>. Until then the controller holds the handle it
  held before.
\<close>

definition subscribe ::
  "(nat \<Rightarrow> ('a, 'e) notification list) \<Rightarrow> ('a, 'e) pausable \<Rightarrow>
     ('a, 'e) pausable \<times> ('a, 'e) frame list"
  where
  "subscribe source w =
     (let k = issued w
      in (w\<lparr>issued := Suc k, calls := calls w @ [Subscribe k]\<rparr>,
          map Handler (source k) @ [Assign k]))"

definition unsubscribe :: "('a, 'e) pausable \<Rightarrow> ('a, 'e) pausable" where
  "unsubscribe w =
     (case sourceSubscription w of
        Some k \<Rightarrow> w\<lparr>calls := calls w @ [Unsubscribe k], sourceSubscription := None\<rparr>
      | None \<Rightarrow> w)"

definition start ::
  "(nat \<Rightarrow> ('a, 'e) notification list) \<Rightarrow> ('a, 'e) pausable \<Rightarrow>
     ('a, 'e) pausable \<times> ('a, 'e) frame list"
  where
  "start source w =
     (if state w \<noteq> stopped then (w, [])
      else subscribe source (w\<lparr>state := running\<rparr>))"

definition stop :: "('a, 'e) pausable \<Rightarrow> ('a, 'e) pausable \<times> ('a, 'e) frame list" where
  "stop w =
     (if state w = stopped then (w, [])
      else (unsubscribe (w\<lparr>state := stopped\<rparr>), []))"

definition pause :: "('a, 'e) pausable \<Rightarrow> ('a, 'e) pausable \<times> ('a, 'e) frame list" where
  "pause w =
     (if state w \<noteq> running then (w, [])
      else (unsubscribe (w\<lparr>state := paused\<rparr>), []))"

definition resume ::
  "(nat \<Rightarrow> ('a, 'e) notification list) \<Rightarrow> ('a, 'e) pausable \<Rightarrow>
     ('a, 'e) pausable \<times> ('a, 'e) frame list"
  where
  "resume source w =
     (if state w \<noteq> paused then (w, [])
      else subscribe source (w\<lparr>state := running\<rparr>))"

text \<open>\<^verbatim>\<open>ACTIONS[action]()\<close>: the table lookup, then the call.\<close>

definition command ::
  "(nat \<Rightarrow> ('a, 'e) notification list) \<Rightarrow> Command \<Rightarrow> ('a, 'e) pausable \<Rightarrow>
     ('a, 'e) pausable \<times> ('a, 'e) frame list"
  where
  "command source action w =
     (case action of
        Start \<Rightarrow> start source w
      | Stop \<Rightarrow> stop w
      | Pause \<Rightarrow> pause w
      | Resume \<Rightarrow> resume source w)"

text \<open>A new controller: stopped, no subscription, nothing called yet.\<close>

definition createPausable :: "('a, 'e) pausable" where
  "createPausable = \<lparr>state = stopped, sourceSubscription = None, issued = 0, calls = []\<rparr>"

section \<open>Running the stack\<close>

text \<open>
  One frame runs: it changes the controller and puts what it calls on top of the stack.
\<close>

definition perform ::
  "('a, 'e) reaction \<Rightarrow> (nat \<Rightarrow> ('a, 'e) notification list) \<Rightarrow> SubArgs option \<Rightarrow>
     ('a, 'e) frame \<Rightarrow> ('a, 'e) pausable \<Rightarrow> ('a, 'e) pausable \<times> ('a, 'e) frame list"
  where
  "perform react source observer f w =
     (case f of
        Invoke action \<Rightarrow> command source action w
      | Handler n \<Rightarrow> deliver react observer n w
      | Assign k \<Rightarrow> (w\<lparr>sourceSubscription := Some k\<rparr>, []))"

text \<open>
  \<open>steps n\<close> runs \<open>n\<close> frames, or fewer when the stack empties before: an empty stack means
  that every call has returned. A callback that restarts the controller from inside a delivery
  can recurse without end (in the code, until the stack overflows); then no \<open>n\<close> empties the
  stack.
\<close>

fun steps ::
  "('a, 'e) reaction \<Rightarrow> (nat \<Rightarrow> ('a, 'e) notification list) \<Rightarrow> SubArgs option \<Rightarrow> nat \<Rightarrow>
     ('a, 'e) pausable \<times> ('a, 'e) frame list \<Rightarrow> ('a, 'e) pausable \<times> ('a, 'e) frame list"
  where
  "steps react source observer 0 c = c"
| "steps react source observer (Suc n) (w, []) = (w, [])"
| "steps react source observer (Suc n) (w, f # fs) =
     (case perform react source observer f w of
        (w', called) \<Rightarrow> steps react source observer n (w', called @ fs))"

section \<open>Histories\<close>

text \<open>
  What happens to a controller from outside: the caller invokes an operation, or the source
  pushes a notification into the relay (at any time, whatever the controller's state). A
  history is the stack that the outside world runs, one event after the other.
\<close>

datatype ('a, 'e) event = Op Command | Emit "('a, 'e) notification"

fun frame_of :: "('a, 'e) event \<Rightarrow> ('a, 'e) frame" where
  "frame_of (Op action) = Invoke action"
| "frame_of (Emit n) = Handler n"

definition run ::
  "('a, 'e) reaction \<Rightarrow> (nat \<Rightarrow> ('a, 'e) notification list) \<Rightarrow> SubArgs option \<Rightarrow> nat \<Rightarrow>
     ('a, 'e) event list \<Rightarrow> ('a, 'e) pausable \<Rightarrow> ('a, 'e) pausable \<times> ('a, 'e) frame list"
  where
  "run react source observer n evs w = steps react source observer n (w, map frame_of evs)"

text \<open>
  A cold source, such as \<^verbatim>\<open>of(1, 2, 3)\<close>, pushes the same notifications to every new
  subscriber inside \<^verbatim>\<open>subscribe\<close>. A source that pushes nothing there, as a \<^verbatim>\<open>Subject\<close>
  does, is \<open>cold []\<close>; what it pushes later arrives as \<open>Emit\<close> events.
\<close>

definition cold :: "('a, 'e) notification list \<Rightarrow> nat \<Rightarrow> ('a, 'e) notification list" where
  "cold ns k = ns"

text \<open>
  Callbacks that call the same operations whenever they are called, such as
  \<^verbatim>\<open>() => pausable.pause()\<close>; and callbacks that never call the controller.
\<close>

definition calls_back :: "Command list \<Rightarrow> ('a, 'e) reaction" where
  "calls_back actions log = actions"

definition silent :: "('a, 'e) reaction" where
  "silent log = []"

section \<open>Reading a history\<close>

text \<open>
  The callback that receives values, as the \<^verbatim>\<open>next\<close> handler of the relay picks it: the
  observer itself when \<^verbatim>\<open>typeof observer === 'function'\<close>, else \<^verbatim>\<open>observer?.next\<close>.
\<close>

definition value_channel :: "SubArgs option \<Rightarrow> callback option" where
  "value_channel observer =
     (case observer of
        Some (Function f) \<Rightarrow> Some f
      | Some (Object ob) \<Rightarrow> next_cb ob
      | None \<Rightarrow> None)"

text \<open>The values with which callback \<open>h\<close> was called as value channel, oldest first.\<close>

fun forwarded :: "callback \<Rightarrow> ('a, 'e) call list \<Rightarrow> 'a list" where
  "forwarded h [] = []"
| "forwarded h (Invoke_next g v # cs) = (if g = h then v # forwarded h cs else forwarded h cs)"
| "forwarded h (_ # cs) = forwarded h cs"

text \<open>The values among the notifications a source pushes, in the order pushed.\<close>

fun pushed_values :: "('a, 'e) notification list \<Rightarrow> 'a list" where
  "pushed_values [] = []"
| "pushed_values (Next v # ns) = v # pushed_values ns"
| "pushed_values (_ # ns) = pushed_values ns"

text \<open>The handles on which \<^verbatim>\<open>unsubscribe()\<close> was called, oldest first.\<close>

fun cancelled :: "('a, 'e) call list \<Rightarrow> Subscription list" where
  "cancelled [] = []"
| "cancelled (Unsubscribe k # cs) = k # cancelled cs"
| "cancelled (_ # cs) = cancelled cs"

text \<open>The handles whose assignment to \<^verbatim>\<open>sourceSubscription\<close> is still to come.\<close>

fun pending :: "('a, 'e) frame list \<Rightarrow> Subscription list" where
  "pending [] = []"
| "pending (Assign k # fs) = k # pending fs"
| "pending (_ # fs) = pending fs"

text \<open>Invariant I1: a handle is stored exactly when the controller is running.\<close>

definition I1 :: "('a, 'e) pausable \<Rightarrow> bool" where
  "I1 w = ((sourceSubscription w \<noteq> None) = (state w = running))"

text \<open>
  The bookkeeping of handles: no handle was cancelled twice or is both cancelled and still to be
  assigned, every such handle is one the source has handed out, and the stored handle, if any,
  was handed out, is not cancelled and is not assigned again.
\<close>

definition handles_ok :: "('a, 'e) pausable \<times> ('a, 'e) frame list \<Rightarrow> bool" where
  "handles_ok c =
     (let w = fst c; hs = cancelled (calls w) @ pending (snd c)
      in distinct hs \<and>
         list_all (\<lambda>k. k < issued w) hs \<and>
         (case sourceSubscription w of
            Some k \<Rightarrow> k < issued w \<and> k \<notin> set hs
          | None \<Rightarrow> True))"

section \<open>The relay the specification describes\<close>

text \<open>
  These two definitions follow the specification's words, not the code: the sink is resolved
  once, at construction, into a record of three channels, each independently optional (a single
  callable is the value channel; an absent sink has no channel), and the relay forwards through
  that record only: a value when the state is running, an error and a completion always.
\<close>

record handlers =
  onValue :: "callback option"
  onError :: "callback option"
  onComplete :: "callback option"

definition resolved_at_construction :: "SubArgs option \<Rightarrow> handlers" where
  "resolved_at_construction sink =
     (case sink of
        None \<Rightarrow> \<lparr>onValue = None, onError = None, onComplete = None\<rparr>
      | Some (Function f) \<Rightarrow> \<lparr>onValue = Some f, onError = None, onComplete = None\<rparr>
      | Some (Object ob) \<Rightarrow>
          \<lparr>onValue = next_cb ob, onError = error_cb ob, onComplete = complete_cb ob\<rparr>)"

definition relay_resolved ::
  "handlers \<Rightarrow> State \<Rightarrow> ('a, 'e) notification \<Rightarrow> ('a, 'e) call list" where
  "relay_resolved hs st n =
     (case n of
        Next v \<Rightarrow>
          (if st = running then (case onValue hs of Some h \<Rightarrow> [Invoke_next h v] | None \<Rightarrow> [])
           else [])
      | Error err \<Rightarrow> (case onError hs of Some h \<Rightarrow> [Invoke_error h err] | None \<Rightarrow> [])
      | Complete \<Rightarrow> (case onComplete hs of Some h \<Rightarrow> [Invoke_complete h] | None \<Rightarrow> []))"

section \<open>How the stack runs\<close>

lemma cold_apply [simp]: "cold ns k = ns"
  by (simp add: cold_def)

lemma calls_back_apply [simp]: "calls_back actions log = actions"
  by (simp add: calls_back_def)

lemma silent_apply [simp]: "silent log = []"
  by (simp add: silent_def)

lemma steps_returned [simp]: "steps react source observer n (w, []) = (w, [])"
  by (cases n) simp_all

lemma steps_Suc:
  "steps react source observer (Suc n) (w, f # fs) =
     steps react source observer n
       (fst (perform react source observer f w), snd (perform react source observer f w) @ fs)"
  by (simp add: case_prod_beta)

lemma steps_add:
  "steps react source observer (m + n) c =
     steps react source observer n (steps react source observer m c)"
proof (induction m arbitrary: c)
  case 0
  show ?case by simp
next
  case (Suc m)
  obtain w fs where c: "c = (w, fs)" by (cases c)
  show ?case
  proof (cases fs)
    case Nil
    then show ?thesis using c by simp
  next
    case (Cons f fs')
    then show ?thesis using c Suc.IH by (simp add: case_prod_beta)
  qed
qed

lemma relay_not_running [simp]: "st \<noteq> running \<Longrightarrow> relay observer st (Next v) = []"
  by (simp add: relay_def relay_next_def)

lemma relay_value_channel:
  "value_channel observer = Some h \<Longrightarrow> relay observer running (Next v) = [Invoke_next h v]"
  by (auto simp: relay_def relay_next_def value_channel_def split: option.splits SubArgs.splits)

lemma deliver_fields [simp]:
  "state (fst (deliver react observer n w)) = state w"
  "sourceSubscription (fst (deliver react observer n w)) = sourceSubscription w"
  "issued (fst (deliver react observer n w)) = issued w"
  by (simp_all add: deliver_def split: list.splits)

lemma deliver_silent:
  "deliver silent observer n w = (w\<lparr>calls := calls w @ relay observer (state w) n\<rparr>, [])"
  by (simp add: deliver_def split: list.splits)

lemma deliver_not_running:
  "state w \<noteq> running \<Longrightarrow> deliver react observer (Next v) w = (w, [])"
  by (simp add: deliver_def)

lemma steps_gated:
  "state w \<noteq> running \<Longrightarrow>
   steps react source observer (length vs) (w, map Handler (map Next vs) @ fs) = (w, fs)"
  by (induction vs) (simp_all add: perform_def deliver_not_running)

lemma steps_silent_handlers:
  "steps silent source observer (length ns) (w, map Handler ns @ fs) =
     (w\<lparr>calls := calls w @ concat (map (relay observer (state w)) ns)\<rparr>, fs)"
  by (induction ns arbitrary: w) (simp_all add: perform_def deliver_silent)

lemma steps_silent_subscribe:
  "steps silent source observer (Suc (length (source (issued w))))
     (fst (subscribe source w), snd (subscribe source w) @ fs) =
   (w\<lparr>sourceSubscription := Some (issued w), issued := Suc (issued w),
      calls := calls w @ Subscribe (issued w) #
               concat (map (relay observer (state w)) (source (issued w)))\<rparr>, fs)"
proof -
  let ?k = "issued w"
  let ?w1 = "w\<lparr>issued := Suc ?k, calls := calls w @ [Subscribe ?k]\<rparr>"
  have "steps silent source observer (length (source ?k) + 1)
          (?w1, map Handler (source ?k) @ Assign ?k # fs) =
        steps silent source observer 1
          (?w1\<lparr>calls := calls ?w1 @ concat (map (relay observer (state ?w1)) (source ?k))\<rparr>,
           Assign ?k # fs)"
    unfolding steps_add steps_silent_handlers ..
  then show ?thesis
    by (simp add: subscribe_def Let_def perform_def)
qed

lemma calls_grow_perform:
  "\<exists>ys. calls (fst (perform react source observer f w)) = calls w @ ys"
proof (cases f)
  case (Invoke action)
  then show ?thesis
    by (cases action)
       (simp_all add: perform_def command_def start_def stop_def pause_def resume_def
          subscribe_def unsubscribe_def Let_def split: option.splits)
next
  case (Handler n)
  then show ?thesis by (simp add: perform_def deliver_def split: list.splits)
next
  case (Assign k)
  then show ?thesis by (simp add: perform_def)
qed

lemma calls_grow: "\<exists>ys. calls (fst (steps react source observer n (w, fs))) = calls w @ ys"
proof (induction n arbitrary: w fs)
  case 0
  show ?case by simp
next
  case (Suc n)
  show ?case
  proof (cases fs)
    case Nil
    then show ?thesis by simp
  next
    case (Cons f fs')
    obtain ys where ys: "calls (fst (perform react source observer f w)) = calls w @ ys"
      using calls_grow_perform by blast
    obtain zs where
      "calls (fst (steps react source observer n
          (fst (perform react source observer f w),
           snd (perform react source observer f w) @ fs'))) =
       calls (fst (perform react source observer f w)) @ zs"
      using Suc.IH by blast
    then show ?thesis unfolding Cons steps_Suc using ys by simp
  qed
qed

section \<open>Values while running\<close>

lemma forwarded_append [simp]: "forwarded h (xs @ ys) = forwarded h xs @ forwarded h ys"
  by (induction h xs rule: forwarded.induct) simp_all

lemma forwarded_relay:
  assumes "value_channel observer = Some h"
  shows "forwarded h (relay observer running n) = pushed_values [n]"
proof (cases n)
  case (Next v)
  then show ?thesis by (simp add: relay_value_channel [OF assms])
next
  case (Error err)
  then show ?thesis
    by (simp add: relay_def relay_error_def split: option.splits SubArgs.splits)
next
  case Complete
  then show ?thesis
    by (simp add: relay_def relay_complete_def split: option.splits SubArgs.splits)
qed

lemma pushed_values_Cons: "pushed_values (n # ns) = pushed_values [n] @ pushed_values ns"
  by (cases n) simp_all

lemma forwarded_relay_all:
  assumes "value_channel observer = Some h"
  shows "forwarded h (concat (map (relay observer running) ns)) = pushed_values ns"
proof (induction ns)
  case Nil
  show ?case by simp
next
  case (Cons n ns)
  have "forwarded h (concat (map (relay observer running) (n # ns))) =
          pushed_values [n] @ pushed_values ns"
    using Cons.IH forwarded_relay [OF assms] by simp
  then show ?case using pushed_values_Cons [of n ns] by simp
qed

lemma relay_values_running:
  assumes "value_channel observer = Some h"
  shows "concat (map (relay observer running \<circ> Next) vs) = map (Invoke_next h) vs"
  by (induction vs) (simp_all add: relay_value_channel [OF assms])

lemma steps_silent_start:
  "steps silent source observer (length (source (issued w)) + 2)
     (w\<lparr>state := stopped\<rparr>, Invoke Start # fs) =
   (w\<lparr>state := running, sourceSubscription := Some (issued w), issued := Suc (issued w),
      calls := calls w @ Subscribe (issued w) #
               concat (map (relay observer running) (source (issued w)))\<rparr>, fs)"
  using steps_silent_subscribe [of source observer "w\<lparr>state := running\<rparr>" fs]
  by (simp add: case_prod_beta perform_def command_def start_def)

lemma steps_silent_resume:
  "steps silent source observer (length (source (issued w)) + 2)
     (w\<lparr>state := paused\<rparr>, Invoke Resume # fs) =
   (w\<lparr>state := running, sourceSubscription := Some (issued w), issued := Suc (issued w),
      calls := calls w @ Subscribe (issued w) #
               concat (map (relay observer running) (source (issued w)))\<rparr>, fs)"
  using steps_silent_subscribe [of source observer "w\<lparr>state := running\<rparr>" fs]
  by (simp add: case_prod_beta perform_def command_def resume_def)

section \<open>The handles\<close>

lemma cancelled_append [simp]: "cancelled (xs @ ys) = cancelled xs @ cancelled ys"
  by (induction xs rule: cancelled.induct) simp_all

lemma cancelled_relay [simp]: "cancelled (relay observer st n) = []"
  by (cases n)
     (simp_all add: relay_def relay_next_def relay_error_def relay_complete_def
        split: option.splits SubArgs.splits)

lemma pending_append [simp]: "pending (xs @ ys) = pending xs @ pending ys"
  by (induction xs rule: pending.induct) simp_all

lemma pending_Handler [simp]: "pending (map Handler ns) = []"
  by (induction ns) simp_all

lemma pending_Invoke [simp]: "pending (map Invoke actions) = []"
  by (induction actions) simp_all

lemma pending_frame_of [simp]: "pending (map frame_of evs) = []"
proof (induction evs)
  case Nil
  show ?case by simp
next
  case (Cons ev evs)
  then show ?case by (cases ev) simp_all
qed

lemma handles_ok_subscribe:
  assumes "handles_ok (w, fs)"
  shows "handles_ok (fst (subscribe source w), snd (subscribe source w) @ fs)"
  using assms
  by (auto simp: handles_ok_def subscribe_def Let_def list_all_iff intro: less_SucI
      split: option.splits)

lemma handles_ok_unsubscribe:
  assumes "handles_ok (w, fs)"
  shows "handles_ok (unsubscribe w, fs)"
  using assms
  by (auto simp: handles_ok_def unsubscribe_def Let_def list_all_iff split: option.splits)

lemma handles_ok_state: "handles_ok (w\<lparr>state := st\<rparr>, fs) = handles_ok (w, fs)"
  by (simp add: handles_ok_def Let_def split: option.splits)

lemma handles_ok_deliver:
  assumes "handles_ok (w, fs)"
  shows "handles_ok (fst (deliver react observer n w), snd (deliver react observer n w) @ fs)"
proof (cases "relay observer (state w) n")
  case Nil
  then show ?thesis using assms by (simp add: deliver_def)
next
  case (Cons c cs)
  have "cancelled (c # cs) = []"
    using cancelled_relay [of observer "state w" n] unfolding Cons .
  then show ?thesis
    using assms Cons by (simp add: deliver_def handles_ok_def Let_def split: option.splits)
qed

lemma handles_ok_assign:
  assumes "handles_ok (w, Assign k # fs)"
  shows "handles_ok (w\<lparr>sourceSubscription := Some k\<rparr>, fs)"
  using assms by (auto simp: handles_ok_def Let_def list_all_iff split: option.splits)

lemma handles_ok_drop:
  "handles_ok (w, Invoke action # fs) = handles_ok (w, fs)"
  "handles_ok (w, Handler n # fs) = handles_ok (w, fs)"
  by (simp_all add: handles_ok_def Let_def)

lemma handles_ok_perform:
  assumes "handles_ok (w, f # fs)"
  shows "handles_ok (fst (perform react source observer f w),
                     snd (perform react source observer f w) @ fs)"
proof (cases f)
  case (Invoke action)
  have ok: "handles_ok (w, fs)"
    using assms unfolding Invoke by (simp add: handles_ok_drop)
  show ?thesis
  proof (cases action)
    case Start
    show ?thesis
      using ok handles_ok_subscribe [of "w\<lparr>state := running\<rparr>" fs source]
      by (simp add: Invoke Start perform_def command_def start_def handles_ok_state)
  next
    case Stop
    show ?thesis
      using ok handles_ok_unsubscribe [of "w\<lparr>state := stopped\<rparr>" fs]
      by (simp add: Invoke Stop perform_def command_def stop_def handles_ok_state)
  next
    case Pause
    show ?thesis
      using ok handles_ok_unsubscribe [of "w\<lparr>state := paused\<rparr>" fs]
      by (simp add: Invoke Pause perform_def command_def pause_def handles_ok_state)
  next
    case Resume
    show ?thesis
      using ok handles_ok_subscribe [of "w\<lparr>state := running\<rparr>" fs source]
      by (simp add: Invoke Resume perform_def command_def resume_def handles_ok_state)
  qed
next
  case (Handler n)
  have "handles_ok (w, fs)"
    using assms unfolding Handler by (simp add: handles_ok_drop)
  then show ?thesis
    unfolding Handler by (simp add: perform_def handles_ok_deliver)
next
  case (Assign k)
  show ?thesis
    using handles_ok_assign [of w k fs] assms unfolding Assign by (simp add: perform_def)
qed

lemma handles_ok_steps:
  "handles_ok c \<Longrightarrow> handles_ok (steps react source observer n c)"
proof (induction n arbitrary: c)
  case 0
  then show ?case by simp
next
  case (Suc n)
  obtain w fs where c: "c = (w, fs)" by (cases c)
  show ?case
  proof (cases fs)
    case Nil
    then show ?thesis using Suc.prems c by simp
  next
    case (Cons f fs')
    have "handles_ok (fst (perform react source observer f w),
                      snd (perform react source observer f w) @ fs')"
      using Suc.prems unfolding c Cons by (rule handles_ok_perform)
    then show ?thesis unfolding c Cons steps_Suc by (rule Suc.IH)
  qed
qed

lemma handles_ok_createPausable: "handles_ok (createPausable, map frame_of evs)"
  by (simp add: handles_ok_def createPausable_def)

section \<open>The transition table, and where the code leaves it\<close>

text \<open>
  What the four operations do in every state, whatever handle is stored: a failed guard returns
  the controller as it is and calls nothing; \<open>start\<close> and \<open>resume\<close> set the state, call
  \<^verbatim>\<open>source$.subscribe\<close> and leave the handle to be assigned after the source's pushes;
  \<open>pause\<close> and \<open>stop\<close> set the state and cancel the handle that is stored, if one is stored.
\<close>

lemma operations:
  fixes w :: "('a, 'e) pausable"
  shows
  "start source (w\<lparr>state := stopped\<rparr>) =
     (w\<lparr>state := running, issued := Suc (issued w), calls := calls w @ [Subscribe (issued w)]\<rparr>,
      map Handler (source (issued w)) @ [Assign (issued w)])"
  "start source (w\<lparr>state := running\<rparr>) = (w\<lparr>state := running\<rparr>, [])"
  "start source (w\<lparr>state := paused\<rparr>) = (w\<lparr>state := paused\<rparr>, [])"
  "pause (w\<lparr>state := running, sourceSubscription := Some k\<rparr>) =
     (w\<lparr>state := paused, sourceSubscription := None, calls := calls w @ [Unsubscribe k]\<rparr>, [])"
  "pause (w\<lparr>state := running, sourceSubscription := None\<rparr>) =
     (w\<lparr>state := paused, sourceSubscription := None\<rparr>, [])"
  "pause (w\<lparr>state := stopped\<rparr>) = (w\<lparr>state := stopped\<rparr>, [])"
  "pause (w\<lparr>state := paused\<rparr>) = (w\<lparr>state := paused\<rparr>, [])"
  "resume source (w\<lparr>state := paused\<rparr>) =
     (w\<lparr>state := running, issued := Suc (issued w), calls := calls w @ [Subscribe (issued w)]\<rparr>,
      map Handler (source (issued w)) @ [Assign (issued w)])"
  "resume source (w\<lparr>state := stopped\<rparr>) = (w\<lparr>state := stopped\<rparr>, [])"
  "resume source (w\<lparr>state := running\<rparr>) = (w\<lparr>state := running\<rparr>, [])"
  "stop (w\<lparr>state := running, sourceSubscription := Some k\<rparr>) =
     (w\<lparr>state := stopped, sourceSubscription := None, calls := calls w @ [Unsubscribe k]\<rparr>, [])"
  "stop (w\<lparr>state := paused, sourceSubscription := Some k\<rparr>) =
     (w\<lparr>state := stopped, sourceSubscription := None, calls := calls w @ [Unsubscribe k]\<rparr>, [])"
  "stop (w\<lparr>state := running, sourceSubscription := None\<rparr>) =
     (w\<lparr>state := stopped, sourceSubscription := None\<rparr>, [])"
  "stop (w\<lparr>state := paused, sourceSubscription := None\<rparr>) =
     (w\<lparr>state := stopped, sourceSubscription := None\<rparr>, [])"
  "stop (w\<lparr>state := stopped\<rparr>) = (w\<lparr>state := stopped\<rparr>, [])"
  by (simp_all add: start_def stop_def pause_def resume_def subscribe_def unsubscribe_def Let_def)

text \<open>
  Claim C1 is right about the table and the code leaves it in one place. The controller is
  \<^verbatim>\<open>createPausable(source$, () => pausable.pause())\<close> on a source that pushes the value \<open>1\<close>
  to a new subscriber inside \<^verbatim>\<open>subscribe\<close>, and the caller calls \<open>start\<close>. After two frames
  \<open>start\<close> has set the state to running and called \<^verbatim>\<open>source$.subscribe\<close>, which has opened
  subscription \<open>0\<close> and pushed \<open>1\<close>; the relay has called the callback, which now calls
  \<open>pause\<close>, in state running. \<^verbatim>\<open>sourceSubscription\<close> is still null, because
  \<^verbatim>\<open>source$.subscribe\<close> has not returned. So \<open>pause\<close> sets the state to paused and cancels
  nothing: the log has no \<open>Unsubscribe\<close>, and the handle of the open subscription is still to
  be assigned. The claim says that \<open>pause\<close> from running cancels the current subscription.
\<close>

theorem pause_inside_subscribe_cancels_nothing:
  "steps (calls_back [Pause]) (cold [Next 1]) (Some (Function 0)) 2
     (createPausable :: (nat, nat) pausable, [Invoke Start]) =
     (\<lparr>state = running, sourceSubscription = None, issued = 1,
       calls = [Subscribe 0, Invoke_next 0 1]\<rparr>,
      [Invoke Pause, Assign 0])
   \<and> steps (calls_back [Pause]) (cold [Next 1]) (Some (Function 0)) 3
       (createPausable :: (nat, nat) pausable, [Invoke Start]) =
     (\<lparr>state = paused, sourceSubscription = None, issued = 1,
       calls = [Subscribe 0, Invoke_next 0 1]\<rparr>,
      [Assign 0])"
  by (simp add: eval_nat_numeral createPausable_def perform_def command_def start_def pause_def
      subscribe_def unsubscribe_def deliver_def relay_def relay_next_def Let_def)

section \<open>Gating and forwarding of values\<close>

text \<open>
  Claim C2 (gating). Whatever values the source delivers while the controller is stopped or
  paused, and however many, the relay calls nothing, whatever the callbacks would do: after
  the deliveries the controller and the log of calls are what they were before, and nothing
  was put on the stack, so the value channel was not invoked for any of them.
\<close>

theorem values_gated:
  fixes w :: "('a, 'e) pausable"
  assumes "state w \<noteq> running"
  shows
  "deliver react observer (Next v) w = (w, [])
   \<and> steps react source observer (length vs) (w, map Handler (map Next vs) @ fs) = (w, fs)"
proof (intro conjI)
  show "deliver react observer (Next v) w = (w, [])"
    by (rule deliver_not_running [OF assms])
  show "steps react source observer (length vs) (w, map Handler (map Next vs) @ fs) = (w, fs)"
    by (rule steps_gated [OF assms])
qed

theorem values_gated_witness:
  "state (createPausable :: (nat, nat) pausable) \<noteq> running \<and>
   steps (calls_back [Stop, Start]) (cold [Next 9]) (Some (Function 0)) (length [1, 2, 3 :: nat])
     (createPausable :: (nat, nat) pausable, [Handler (Next 1), Handler (Next 2), Handler (Next 3)]) =
     (createPausable, [])"
proof -
  have h: "state (createPausable :: (nat, nat) pausable) \<noteq> running"
    by (simp add: createPausable_def)
  show ?thesis
    using h values_gated [OF h, where react = "calls_back [Stop, Start]"
        and source = "cold [Next 9]" and observer = "Some (Function 0)"
        and vs = "[1, 2, 3]" and fs = "[]"]
    by simp
qed

text \<open>
  Claim C3 (forwarding). Let \<open>h\<close> be the callback the observer offers for values. A value
  delivered while the controller is running is passed to \<open>h\<close> in exactly one call, with that
  same value, at once: the call is the next entry of the log, before anything the callback does.
  The log only grows, so the calls stay in the order of the deliveries. \<open>start\<close> from stopped
  and \<open>resume\<close> from paused set the state to running before \<^verbatim>\<open>source$.subscribe\<close> is called,
  so what the source pushes inside that call meets a running controller. With callbacks that do
  not call the controller, a run of values delivered while running is forwarded whole, one call
  each, in order, and so are the values pushed inside \<^verbatim>\<open>subscribe\<close> during \<open>start\<close> and
  \<open>resume\<close>, both of which return.
\<close>

theorem values_forwarded:
  fixes w :: "('a, 'e) pausable"
  assumes "value_channel observer = Some h"
  shows
  "deliver react observer (Next v) (w\<lparr>state := running\<rparr>) =
     (w\<lparr>state := running, calls := calls w @ [Invoke_next h v]\<rparr>,
      map Invoke (react (calls w @ [Invoke_next h v])))
   \<and> (\<exists>ys. calls (fst (steps react source observer n (w, fs))) = calls w @ ys)
   \<and> start source (w\<lparr>state := stopped\<rparr>) =
       (w\<lparr>state := running, issued := Suc (issued w),
          calls := calls w @ [Subscribe (issued w)]\<rparr>,
        map Handler (source (issued w)) @ [Assign (issued w)])
   \<and> resume source (w\<lparr>state := paused\<rparr>) =
       (w\<lparr>state := running, issued := Suc (issued w),
          calls := calls w @ [Subscribe (issued w)]\<rparr>,
        map Handler (source (issued w)) @ [Assign (issued w)])
   \<and> steps silent source observer (length vs)
       (w\<lparr>state := running\<rparr>, map Handler (map Next vs) @ fs) =
       (w\<lparr>state := running, calls := calls w @ map (Invoke_next h) vs\<rparr>, fs)
   \<and> snd (steps silent source observer (length (source (issued w)) + 2)
            (w\<lparr>state := stopped\<rparr>, [Invoke Start])) = []
   \<and> forwarded h (calls (fst (steps silent source observer (length (source (issued w)) + 2)
            (w\<lparr>state := stopped\<rparr>, [Invoke Start])))) =
       forwarded h (calls w) @ pushed_values (source (issued w))
   \<and> snd (steps silent source observer (length (source (issued w)) + 2)
            (w\<lparr>state := paused\<rparr>, [Invoke Resume])) = []
   \<and> forwarded h (calls (fst (steps silent source observer (length (source (issued w)) + 2)
            (w\<lparr>state := paused\<rparr>, [Invoke Resume])))) =
       forwarded h (calls w) @ pushed_values (source (issued w))"
proof (intro conjI)
  show "deliver react observer (Next v) (w\<lparr>state := running\<rparr>) =
     (w\<lparr>state := running, calls := calls w @ [Invoke_next h v]\<rparr>,
      map Invoke (react (calls w @ [Invoke_next h v])))"
    by (simp add: deliver_def relay_value_channel [OF assms])
  show "\<exists>ys. calls (fst (steps react source observer n (w, fs))) = calls w @ ys"
    by (rule calls_grow)
  show "start source (w\<lparr>state := stopped\<rparr>) =
       (w\<lparr>state := running, issued := Suc (issued w),
          calls := calls w @ [Subscribe (issued w)]\<rparr>,
        map Handler (source (issued w)) @ [Assign (issued w)])"
    by (simp add: start_def subscribe_def Let_def)
  show "resume source (w\<lparr>state := paused\<rparr>) =
       (w\<lparr>state := running, issued := Suc (issued w),
          calls := calls w @ [Subscribe (issued w)]\<rparr>,
        map Handler (source (issued w)) @ [Assign (issued w)])"
    by (simp add: resume_def subscribe_def Let_def)
  show "steps silent source observer (length vs)
       (w\<lparr>state := running\<rparr>, map Handler (map Next vs) @ fs) =
       (w\<lparr>state := running, calls := calls w @ map (Invoke_next h) vs\<rparr>, fs)"
    using steps_silent_handlers [of source observer "map Next vs" "w\<lparr>state := running\<rparr>" fs]
    by (simp add: relay_values_running [OF assms])
  show "snd (steps silent source observer (length (source (issued w)) + 2)
            (w\<lparr>state := stopped\<rparr>, [Invoke Start])) = []"
    unfolding steps_silent_start by simp
  show "forwarded h (calls (fst (steps silent source observer (length (source (issued w)) + 2)
            (w\<lparr>state := stopped\<rparr>, [Invoke Start])))) =
       forwarded h (calls w) @ pushed_values (source (issued w))"
    unfolding steps_silent_start by (simp add: forwarded_relay_all [OF assms])
  show "snd (steps silent source observer (length (source (issued w)) + 2)
            (w\<lparr>state := paused\<rparr>, [Invoke Resume])) = []"
    unfolding steps_silent_resume by simp
  show "forwarded h (calls (fst (steps silent source observer (length (source (issued w)) + 2)
            (w\<lparr>state := paused\<rparr>, [Invoke Resume])))) =
       forwarded h (calls w) @ pushed_values (source (issued w))"
    unfolding steps_silent_resume by (simp add: forwarded_relay_all [OF assms])
qed

text \<open>
  An observer object whose \<^verbatim>\<open>next\<close> is callback \<open>5\<close>, on a source that pushes
  \<open>7, error, 8\<close> to each new subscriber: \<open>start\<close> returns after five frames and has
  forwarded \<open>7, 8\<close>.
\<close>

theorem values_forwarded_witness:
  "value_channel (Some (Object \<lparr>next_cb = Some 5, error_cb = None, complete_cb = None\<rparr>)) = Some 5 \<and>
   steps silent (cold [Next 7, Error 0, Next 8])
     (Some (Object \<lparr>next_cb = Some 5, error_cb = None, complete_cb = None\<rparr>)) 5
     (createPausable :: (nat, nat) pausable, [Invoke Start]) =
     (\<lparr>state = running, sourceSubscription = Some 0, issued = 1,
       calls = [Subscribe 0, Invoke_next 5 7, Invoke_next 5 8]\<rparr>, []) \<and>
   forwarded 5 (calls (fst (steps silent (cold [Next 7, Error 0, Next 8])
     (Some (Object \<lparr>next_cb = Some 5, error_cb = None, complete_cb = None\<rparr>)) 5
     (createPausable :: (nat, nat) pausable, [Invoke Start])))) = [7, 8]"
proof -
  let ?ob = "Some (Object \<lparr>next_cb = Some 5, error_cb = None, complete_cb = None\<rparr>)"
  have h: "value_channel ?ob = Some 5"
    by (simp add: value_channel_def)
  have run: "steps silent (cold [Next 7, Error 0, Next 8]) ?ob 5
     (createPausable :: (nat, nat) pausable, [Invoke Start]) =
     (\<lparr>state = running, sourceSubscription = Some 0, issued = 1,
       calls = [Subscribe 0, Invoke_next 5 7, Invoke_next 5 8]\<rparr>, [])"
    by (simp add: eval_nat_numeral createPausable_def perform_def command_def start_def
        subscribe_def deliver_def relay_def relay_next_def relay_error_def Let_def)
  show ?thesis
    using h run values_forwarded [OF h, where w = "createPausable :: (nat, nat) pausable"
        and source = "cold [Next 7, Error 0, Next 8]"]
    by (simp add: createPausable_def)
qed

section \<open>Errors and completion\<close>



text \<open>
  Claim C6. A completion is relayed to the observer object's \<^verbatim>\<open>complete\<close> handler if it
  has one, and the relay changes nothing else: no handler, on any notification, assigns
  \<^verbatim>\<open>state\<close>, \<^verbatim>\<open>sourceSubscription\<close> or the count of handles, and all it puts on the stack
  is what the callback it called calls. So with callbacks that do not call the controller,
  whatever the source delivers, completion included, a running controller stays running with
  its handle stored, until \<open>stop\<close> or \<open>pause\<close> is called.
\<close>

theorem completion_relayed:
  fixes w :: "('a, 'e) pausable"
  shows
  "deliver react (Some (Object (ob\<lparr>complete_cb := Some h\<rparr>))) Complete w =
     (w\<lparr>calls := calls w @ [Invoke_complete h]\<rparr>,
      map Invoke (react (calls w @ [Invoke_complete h])))
   \<and> deliver react (Some (Object (ob\<lparr>complete_cb := None\<rparr>))) Complete w = (w, [])
   \<and> deliver react (Some (Function f)) Complete w = (w, [])
   \<and> deliver react None Complete w = (w, [])
   \<and> state (fst (deliver react observer n w)) = state w
   \<and> sourceSubscription (fst (deliver react observer n w)) = sourceSubscription w
   \<and> issued (fst (deliver react observer n w)) = issued w
   \<and> steps silent source observer (length ns) (w, map Handler ns @ fs) =
       (w\<lparr>calls := calls w @ concat (map (relay observer (state w)) ns)\<rparr>, fs)
   \<and> state (fst (steps silent source observer (length ns) (w, map Handler ns @ fs))) = state w
   \<and> sourceSubscription (fst (steps silent source observer (length ns) (w, map Handler ns @ fs))) =
       sourceSubscription w
   \<and> issued (fst (steps silent source observer (length ns) (w, map Handler ns @ fs))) = issued w"
  by (simp add: steps_silent_handlers) (simp add: deliver_def relay_def relay_complete_def)

theorem completion_relayed_witness:
  "deliver silent (Some (Object \<lparr>next_cb = None, error_cb = None, complete_cb = Some 6\<rparr>)) Complete
     \<lparr>state = running, sourceSubscription = Some 0, issued = 1,
      calls = [Subscribe 0 :: (nat, nat) call]\<rparr> =
   (\<lparr>state = running, sourceSubscription = Some 0, issued = 1,
     calls = [Subscribe 0, Invoke_complete 6]\<rparr>, [])"
  using completion_relayed [where ob = "\<lparr>next_cb = None, error_cb = None, complete_cb = None\<rparr>"
      and h = 6 and react = silent
      and w = "\<lparr>state = running, sourceSubscription = Some 0, issued = 1,
                calls = [Subscribe 0 :: (nat, nat) call]\<rparr>"]
  by simp

text \<open>
  Claim C10. When the observer is a single callable \<open>f\<close>, it is the value channel and the only
  channel: a stream error and a completion call nothing, in every state. The relay makes a call
  for an error (for a completion) exactly when the observer is an object that carries the
  \<^verbatim>\<open>error\<close> (the \<^verbatim>\<open>complete\<close>) handler.
\<close>

theorem callable_sink_drops_error_and_completion:
  fixes w :: "('a, 'e) pausable"
  shows
  "deliver react (Some (Function f)) (Error err) w = (w, [])
   \<and> deliver react (Some (Function f)) Complete w = (w, [])
   \<and> deliver react (Some (Function f)) (Next v) (w\<lparr>state := running\<rparr>) =
       (w\<lparr>state := running, calls := calls w @ [Invoke_next f v]\<rparr>,
        map Invoke (react (calls w @ [Invoke_next f v])))
   \<and> ((relay observer st (Error err) :: ('a, 'e) call list) \<noteq> [] \<longleftrightarrow>
        (\<exists>ob h. observer = Some (Object ob) \<and> error_cb ob = Some h))
   \<and> ((relay observer st Complete :: ('a, 'e) call list) \<noteq> [] \<longleftrightarrow>
        (\<exists>ob h. observer = Some (Object ob) \<and> complete_cb ob = Some h))"
  by (auto simp: deliver_def relay_def relay_next_def relay_error_def relay_complete_def
      split: option.splits SubArgs.splits)

theorem callable_sink_drops_error_and_completion_witness:
  "steps silent (cold []) (Some (Function 3)) 3
     ((createPausable :: (nat, nat) pausable)\<lparr>state := running\<rparr>,
      [Handler (Next 1), Handler (Error 2), Handler Complete]) =
   (createPausable\<lparr>state := running, calls := [Invoke_next 3 1]\<rparr>, [])"
  using callable_sink_drops_error_and_completion [where f = 3 and err = "2::nat" and v = "1::nat"
      and react = silent and w = "createPausable :: (nat, nat) pausable"]
  by (simp add: eval_nat_numeral createPausable_def perform_def deliver_def relay_def
      relay_next_def relay_error_def relay_complete_def)

section \<open>\<^verbatim>\<open>command\<close>\<close>

text \<open>
  Claim C7. For each of the four action names and every controller, \<open>command\<close> returns what
  the operation of that name returns: the same state, the same stored handle, the same calls,
  and the same calls still to run.
\<close>

theorem command_dispatch:
  fixes w :: "('a, 'e) pausable"
  shows
  "command source Start w = start source w
   \<and> command source Stop w = stop w
   \<and> command source Pause w = pause w
   \<and> command source Resume w = resume source w"
  by (simp add: command_def)

theorem command_dispatch_witness:
  "command (cold []) Start (createPausable :: (nat, nat) pausable) =
     (\<lparr>state = running, sourceSubscription = None, issued = 1, calls = [Subscribe 0]\<rparr>,
      [Assign 0])"
  using command_dispatch [where source = "cold []"
      and w = "createPausable :: (nat, nat) pausable"]
  by (simp add: createPausable_def start_def subscribe_def Let_def)

section \<open>The stored handle\<close>

text \<open>
  Claim C4 (invariant I1) is what the documentation of the states promises, and the code breaks
  it. The controller is \<^verbatim>\<open>createPausable(source$, () => pausable.pause())\<close> on a source that
  pushes the value \<open>1\<close> to a new subscriber inside \<^verbatim>\<open>subscribe\<close>; the caller calls
  \<open>start\<close>, once. The callback's \<open>pause\<close> runs while \<^verbatim>\<open>source$.subscribe\<close> has not
  returned: it finds no handle to cancel. Then \<^verbatim>\<open>source$.subscribe\<close> returns and its handle is
  assigned. When \<open>start\<close> has returned, after four frames, the controller is paused and stores
  the handle of a subscription that was never cancelled: I1 does not hold.
\<close>

theorem handle_stored_while_paused:
  "steps (calls_back [Pause]) (cold [Next 1]) (Some (Function 0)) 4
     (createPausable :: (nat, nat) pausable, [Invoke Start]) =
     (\<lparr>state = paused, sourceSubscription = Some 0, issued = 1,
       calls = [Subscribe 0, Invoke_next 0 1]\<rparr>, [])
   \<and> \<not> I1 (fst (steps (calls_back [Pause]) (cold [Next 1]) (Some (Function 0)) 4
                  (createPausable :: (nat, nat) pausable, [Invoke Start])))"
  by (simp add: eval_nat_numeral createPausable_def perform_def command_def start_def pause_def
      subscribe_def unsubscribe_def deliver_def relay_def relay_next_def Let_def I1_def)

text \<open>
  Claim C9. No handle is cancelled twice: at every moment of every history on a new controller,
  whatever the callbacks call, the handles on which \<^verbatim>\<open>unsubscribe()\<close> was called are all
  different. \<^verbatim>\<open>unsubscribe\<close> calls the stored handle's \<^verbatim>\<open>unsubscribe()\<close> once and forgets
  the handle; with no handle stored it does nothing.
\<close>

theorem handle_cancelled_at_most_once:
  fixes w :: "('a, 'e) pausable"
  shows
  "distinct (cancelled (calls (fst
      (run react source observer n evs (createPausable :: ('a, 'e) pausable)))))
   \<and> unsubscribe (w\<lparr>sourceSubscription := Some k\<rparr>) =
       w\<lparr>sourceSubscription := None, calls := calls w @ [Unsubscribe k]\<rparr>
   \<and> unsubscribe (w\<lparr>sourceSubscription := None\<rparr>) = w\<lparr>sourceSubscription := None\<rparr>"
proof -
  have "handles_ok (run react source observer n evs (createPausable :: ('a, 'e) pausable))"
    unfolding run_def by (rule handles_ok_steps [OF handles_ok_createPausable])
  then have "distinct (cancelled (calls (fst
      (run react source observer n evs (createPausable :: ('a, 'e) pausable)))))"
    by (simp add: handles_ok_def Let_def)
  then show ?thesis by (simp add: unsubscribe_def)
qed

text \<open>
  Start, pause, stop, stop again, start, stop, with callbacks that are never called: eight
  frames, handles \<open>0\<close> and \<open>1\<close>, one cancel each.
\<close>

theorem handle_cancelled_at_most_once_witness:
  "cancelled (calls (fst (run silent (cold []) None 8
      [Op Start, Op Pause, Op Stop, Op Stop, Op Start, Op Stop]
      (createPausable :: (nat, nat) pausable)))) = [0, 1]"
  using handle_cancelled_at_most_once [where source = "cold []" and observer = None
      and react = silent and n = 8
      and evs = "[Op Start, Op Pause, Op Stop, Op Stop, Op Start, Op Stop]"
      and w = "createPausable :: (nat, nat) pausable"]
  by (simp add: eval_nat_numeral run_def perform_def command_def start_def stop_def pause_def
      subscribe_def unsubscribe_def createPausable_def Let_def)

section \<open>When the sink's shape is looked at\<close>

text \<open>
  Claim C8, as stated, does not hold of the code. \<^verbatim>\<open>createPausable\<close> resolves nothing at
  construction: it keeps the reference \<^verbatim>\<open>observer\<close>, and each handler of the relay tests
  \<^verbatim>\<open>typeof observer\<close> and reads \<^verbatim>\<open>observer?.next\<close>, \<^verbatim>\<open>observer?.error\<close> or
  \<^verbatim>\<open>observer?.complete\<close> when its notification arrives. The difference shows on an observer
  object that is given its \<^verbatim>\<open>next\<close> handler after construction: the caller passes an object
  without handlers, calls \<open>start\<close>, which returns after two frames, then assigns callback
  \<open>7\<close> to the object's \<^verbatim>\<open>next\<close>, and the source delivers the value \<open>1\<close>. The code calls
  \<open>7\<close> with \<open>1\<close>; a relay over the record resolved at construction calls nothing.
\<close>

theorem sink_read_at_delivery:
  "calls (fst (deliver silent
            (Some (Object \<lparr>next_cb = Some 7, error_cb = None, complete_cb = None\<rparr>)) (Next 1)
            (fst (steps silent (cold [])
                    (Some (Object \<lparr>next_cb = None, error_cb = None, complete_cb = None\<rparr>)) 2
                    (createPausable :: (nat, nat) pausable, [Invoke Start]))))) =
     [Subscribe 0, Invoke_next 7 1]
   \<and> (relay_resolved
        (resolved_at_construction
           (Some (Object \<lparr>next_cb = None, error_cb = None, complete_cb = None\<rparr>)))
        running (Next 1) :: (nat, nat) call list) = []"
  by (simp add: eval_nat_numeral deliver_def relay_def relay_next_def perform_def command_def
      start_def subscribe_def createPausable_def Let_def relay_resolved_def
      resolved_at_construction_def)

text \<open>
  Claim C8, amended. The relay looks at the shape of the observer on every notification. As
  long as the observer is what it was at construction, the calls it makes on a value, an error
  or a completion, in every state, are those of a relay over the three-channel record resolved
  once at construction.
\<close>

theorem relay_resolved_same_calls:
  "relay_resolved (resolved_at_construction observer) st n = relay observer st n"
  by (cases n)
     (simp_all add: relay_resolved_def resolved_at_construction_def relay_def relay_next_def
        relay_error_def relay_complete_def split: option.splits SubArgs.splits)

text \<open>A single callable as observer, a value while running.\<close>

theorem relay_resolved_same_calls_witness:
  "relay_resolved (resolved_at_construction (Some (Function 2))) running (Next 1) =
     [Invoke_next 2 1 :: (nat, nat) call]"
  using relay_resolved_same_calls [where observer = "Some (Function 2)" and st = running
      and n = "Next 1 :: (nat, nat) notification"]
  by (simp add: relay_def relay_next_def)

end
